theory Spec2Isabelle
  imports Main
begin

section \<open>The ChakaBNB service worker (sw.js)\<close>

text \<open>
  The worker has three event listeners: \<open>install\<close>, \<open>fetch\<close> and \<open>activate\<close>. They act
  on the browser's cache storage through \<open>caches.open\<close>, \<open>cache.addAll\<close>,
  \<open>caches.match\<close>, \<open>cache.put\<close>, \<open>caches.keys\<close> and \<open>caches.delete\<close>, and on the
  network through \<open>fetch\<close>. The listeners are embedded as functions on an explicit cache
  storage; the network is a parameter.

  Scope of the model: a request is its URL (already resolved, so that the strings of the
  manifest are the keys under which its resources are stored) and its mode; requests are
  GET requests and headers (\<open>Vary\<close>) are not modelled. A response is its status, its
  type and its body.
\<close>

subsection \<open>Requests and responses\<close>

type_synonym url = string

datatype request_mode = ModeNavigate | ModeSameOrigin | ModeNoCors | ModeCors

datatype response_type = Basic | Cors | DefaultType | ErrorType | Opaque | OpaqueRedirect

record request =
  url :: url
  mode :: request_mode

record response =
  status :: nat
  rtype :: response_type
  body :: string

text \<open>The network: what \<open>fetch(request)\<close> settles to; \<open>None\<close> is a rejected fetch.\<close>

type_synonym network = "request \<Rightarrow> response option"

subsection \<open>Cache storage\<close>

text \<open>
  A cache is the list of its entries in insertion order, the cache storage the list of its
  named caches in creation order (the order of \<open>caches.keys()\<close>, and the order in which
  \<open>caches.match\<close> searches).
\<close>

type_synonym cache = "(url \<times> response) list"

type_synonym cache_storage = "(string \<times> cache) list"

definition caches_keys :: "cache_storage \<Rightarrow> string list" where
  "caches_keys cs = map fst cs"

text \<open>\<open>caches.open(name)\<close> creates the cache when there is none of that name.\<close>

definition caches_open :: "string \<Rightarrow> cache_storage \<Rightarrow> cache_storage" where
  "caches_open name cs = (if name \<in> set (caches_keys cs) then cs else cs @ [(name, [])])"

text \<open>A method call on the cache object that \<open>caches.open(name)\<close> resolved to.\<close>

fun update_cache :: "string \<Rightarrow> (cache \<Rightarrow> cache) \<Rightarrow> cache_storage \<Rightarrow> cache_storage" where
  "update_cache name f [] = []"
| "update_cache name f ((n, c) # cs) =
     (if n = name then (n, f c) # cs else (n, c) # update_cache name f cs)"

definition caches_delete :: "string \<Rightarrow> cache_storage \<Rightarrow> cache_storage" where
  "caches_delete name cs = filter (\<lambda>(n, c). n \<noteq> name) cs"

definition cache_match :: "url \<Rightarrow> cache \<Rightarrow> response option" where
  "cache_match u c = map_of c u"

text \<open>\<open>caches.match\<close> asks every cache in turn and resolves to the first match.\<close>

fun caches_match :: "url \<Rightarrow> cache_storage \<Rightarrow> response option" where
  "caches_match u [] = None"
| "caches_match u ((n, c) # cs) =
     (case cache_match u c of Some r \<Rightarrow> Some r | None \<Rightarrow> caches_match u cs)"

text \<open>\<open>cache.put\<close> removes the entries of the same request and appends the new one.\<close>

definition cache_put :: "url \<Rightarrow> response \<Rightarrow> cache \<Rightarrow> cache" where
  "cache_put u r c = filter (\<lambda>(k, v). k \<noteq> u) c @ [(u, r)]"

definition put_all :: "(url \<times> response) list \<Rightarrow> cache \<Rightarrow> cache" where
  "put_all es c = fold (\<lambda>(u, r). cache_put u r) es c"

datatype error = TypeError | InvalidStateError

text \<open>
  \<open>cache.addAll(urls)\<close>, as the change it makes to the cache it is called on. It
  fetches a request for every URL (of the default mode) and rejects
  with a \<open>TypeError\<close> when a fetch is rejected or a response is of type error, has no ok
  status (200 to 299) or has status 206. Only when every response is there does it write,
  as one batch; two puts of the same request in one batch are an \<open>InvalidStateError\<close>.
  A rejected \<open>addAll\<close> leaves the cache as it was.
\<close>

definition manifest_request :: "url \<Rightarrow> request" where
  "manifest_request u = \<lparr>url = u, mode = ModeCors\<rparr>"

definition addAll_accepts :: "response \<Rightarrow> bool" where
  "addAll_accepts r \<longleftrightarrow>
     rtype r \<noteq> ErrorType \<and> 200 \<le> status r \<and> status r \<le> 299 \<and> status r \<noteq> 206"

fun fetch_all :: "network \<Rightarrow> url list \<Rightarrow> (url \<times> response) list option" where
  "fetch_all net [] = Some []"
| "fetch_all net (u # us) =
     (case net (manifest_request u) of
        None \<Rightarrow> None
      | Some r \<Rightarrow>
          if addAll_accepts r
          then (case fetch_all net us of None \<Rightarrow> None | Some es \<Rightarrow> Some ((u, r) # es))
          else None)"

definition cache_addAll :: "network \<Rightarrow> url list \<Rightarrow> error + (cache \<Rightarrow> cache)" where
  "cache_addAll net urls =
     (case fetch_all net urls of
        None \<Rightarrow> Inl TypeError
      | Some es \<Rightarrow> if distinct urls then Inr (put_all es) else Inl InvalidStateError)"

subsection \<open>The worker\<close>

definition CACHE_NAME :: string where
  "CACHE_NAME = ''chakabnb-v1''"

definition urlsToCache :: "url list" where
  "urlsToCache =
     [ ''/'',
       ''/index.html'',
       ''/search-results.html'',
       ''/property-detail.html'',
       ''/login.html'',
       ''/register.html'',
       ''/list-property.html'',
       ''/logo.png'',
       ''/js/security.js'',
       ''/js/error-handler.js'',
       ''/js/accessibility.js'',
       ''/js/seo-optimizer.js'',
       ''https://cdn.tailwindcss.com'',
       ''https://cdn.jsdelivr.net/npm/feather-icons/dist/feather.min.js'',
       ''https://unpkg.com/aos@2.3.1/dist/aos.js'',
       ''https://unpkg.com/leaflet@1.9.4/dist/leaflet.js'',
       ''https://fonts.googleapis.com/css2?family=Poppins:wght@300;400;500;600;700&display=swap'' ]"

text \<open>
  The install listener: \<open>caches.open(CACHE_NAME).then(cache => cache.addAll(urlsToCache))\<close>
  under \<open>event.waitUntil\<close>. The install succeeds when that promise is fulfilled and fails
  when it is rejected; the cache that \<open>caches.open\<close> created stays in either case.
\<close>

datatype install_result = Installed | InstallFailed error

definition install :: "network \<Rightarrow> cache_storage \<Rightarrow> install_result \<times> cache_storage" where
  "install net cs =
     (let opened = caches_open CACHE_NAME cs in
      case cache_addAll net urlsToCache of
        Inl e \<Rightarrow> (InstallFailed e, opened)
      | Inr addAll \<Rightarrow> (Installed, update_cache CACHE_NAME addAll opened))"

text \<open>
  The fetch listener. What it hands to \<open>event.respondWith\<close> is a promise that is fulfilled
  with a response, fulfilled with \<open>undefined\<close>, or rejected; the listener's \<open>catch\<close> turns
  every rejection of the chain into a fulfilment. The result carries the storage after the
  listener's cache write has settled and the URLs fetched from the network, in order.
  \<open>put_ok\<close> says whether the write \<open>cache.put\<close> completes: its promise is neither
  returned nor awaited by the listener. A fulfilled \<open>fetch\<close> always carries a response,
  so the test \<open>!response\<close> of the guard is never true and has no branch of its own;
  \<open>response.clone()\<close> is the same value.
\<close>

datatype handler_result = Resolved response | ResolvedUndefined | Rejected

record fetch_outcome =
  result :: handler_result
  storage :: cache_storage
  fetched :: "url list"

definition of_match :: "response option \<Rightarrow> handler_result" where
  "of_match m = (case m of Some r \<Rightarrow> Resolved r | None \<Rightarrow> ResolvedUndefined)"

definition fetch_listener :: "network \<Rightarrow> bool \<Rightarrow> request \<Rightarrow> cache_storage \<Rightarrow> fetch_outcome" where
  "fetch_listener net put_ok req cs =
     (case caches_match (url req) cs of
        Some response \<Rightarrow> \<lparr>result = Resolved response, storage = cs, fetched = []\<rparr>
      | None \<Rightarrow>
          (case net req of
             Some response \<Rightarrow>
               if status response \<noteq> 200 \<or> rtype response \<noteq> Basic
               then \<lparr>result = Resolved response, storage = cs, fetched = [url req]\<rparr>
               else
                 (let responseToCache = response;
                      opened = caches_open CACHE_NAME cs
                  in \<lparr>result = Resolved response,
                      storage =
                        (if put_ok
                         then update_cache CACHE_NAME (cache_put (url req) responseToCache) opened
                         else opened),
                      fetched = [url req]\<rparr>)
           | None \<Rightarrow>
               if mode req = ModeNavigate
               then \<lparr>result = of_match (caches_match ''/index.html'' cs), storage = cs,
                     fetched = [url req]\<rparr>
               else \<lparr>result = ResolvedUndefined, storage = cs, fetched = [url req]\<rparr>))"

text \<open>
  What the page that made the request gets from \<open>respondWith\<close>: the response, or a
  network error when the promise was rejected or fulfilled with something that is no
  response.
\<close>

datatype caller_result = Delivered response | NetworkError

fun respondWith :: "handler_result \<Rightarrow> caller_result" where
  "respondWith (Resolved r) = Delivered r"
| "respondWith ResolvedUndefined = NetworkError"
| "respondWith Rejected = NetworkError"

text \<open>
  The activate listener: \<open>caches.keys()\<close>, then for every name other than \<open>CACHE_NAME\<close>
  a \<open>caches.delete\<close>.
\<close>

definition activate :: "cache_storage \<Rightarrow> cache_storage" where
  "activate cs =
     fold (\<lambda>cacheName s. if cacheName \<noteq> CACHE_NAME then caches_delete cacheName s else s)
       (caches_keys cs) cs"

subsection \<open>Observations\<close>

text \<open>The entries of the generation of a name, and the response a generation holds for a URL.\<close>

definition generation :: "string \<Rightarrow> cache_storage \<Rightarrow> cache option" where
  "generation name cs = map_of cs name"

definition stored :: "string \<Rightarrow> url \<Rightarrow> cache_storage \<Rightarrow> response option" where
  "stored name u cs = (case generation name cs of None \<Rightarrow> None | Some c \<Rightarrow> cache_match u c)"

definition entries_for :: "url \<Rightarrow> cache \<Rightarrow> (url \<times> response) list" where
  "entries_for u c = filter (\<lambda>(k, v). k = u) c"

subsection \<open>Histories\<close>

text \<open>
  The events the worker is woken for, each with what the environment does during it, and
  the storage that a sequence of events leaves behind when it starts on an empty one.
  \<open>requested\<close> gives the URL that an event intercepts.
\<close>

datatype event = InstallEvent network | ActivateEvent | FetchEvent network bool request

fun step :: "event \<Rightarrow> cache_storage \<Rightarrow> cache_storage" where
  "step (InstallEvent net) cs = snd (install net cs)"
| "step ActivateEvent cs = activate cs"
| "step (FetchEvent net put_ok req) cs = storage (fetch_listener net put_ok req cs)"

definition run :: "event list \<Rightarrow> cache_storage" where
  "run evs = fold step evs []"

fun requested :: "event \<Rightarrow> url list" where
  "requested (FetchEvent net put_ok req) = [url req]"
| "requested ev = []"

subsection \<open>Example environments\<close>

text \<open>
  A network that answers every request with status 200: with a basic response for a path
  of the site, with a CORS response for an absolute URL of another origin. And no network
  at all.
\<close>

definition site_network :: network where
  "site_network req =
     Some \<lparr>status = 200, rtype = (if take 1 (url req) = ''/'' then Basic else Cors),
            body = url req\<rparr>"

definition offline :: network where
  "offline req = None"

text \<open>The same network with one resource of the manifest out of reach.\<close>

definition without_logo :: network where
  "without_logo req = (if url req = ''/logo.png'' then None else site_network req)"

text \<open>A photo served by another origin, which is not in the manifest.\<close>

definition photo_url :: url where
  "photo_url = ''https://picsum.photos/id/1018/800/600''"

definition photo_request :: request where
  "photo_request = \<lparr>url = photo_url, mode = ModeCors\<rparr>"

definition photo_response :: response where
  "photo_response = \<lparr>status = 200, rtype = Cors, body = photo_url\<rparr>"

text \<open>A server of the site's origin that answers with 204 No Content.\<close>

definition no_content :: response where
  "no_content = \<lparr>status = 204, rtype = Basic, body = []\<rparr>"

definition no_content_network :: network where
  "no_content_network req = Some no_content"

section \<open>Properties of the cache storage\<close>

lemma fetch_all_keys: "fetch_all net us = Some es \<Longrightarrow> map fst es = us"
  by (induction us arbitrary: es) (auto split: option.splits if_splits)

lemma fetch_all_map_of:
  "fetch_all net us = Some es \<Longrightarrow> u \<in> set us \<Longrightarrow> map_of es u = net (manifest_request u)"
  by (induction us arbitrary: es) (auto split: option.splits if_splits)

lemma fetch_all_Some_iff:
  "(\<exists>es. fetch_all net us = Some es) \<longleftrightarrow>
     (\<forall>u \<in> set us. \<exists>r. net (manifest_request u) = Some r \<and> addAll_accepts r)"
  by (induction us) (auto split: option.splits if_splits)

lemma map_of_cache_put: "map_of (cache_put u r c) k = (if k = u then Some r else map_of c k)"
  by (induction c) (auto simp: cache_put_def)

lemma map_of_filter_out:
  "k \<notin> S \<Longrightarrow> map_of (filter (\<lambda>(k, v). k \<notin> S) c) k = map_of c k"
  by (induction c) auto

lemma put_all_eq:
  "distinct (map fst es) \<Longrightarrow> put_all es c = filter (\<lambda>(k, v). k \<notin> set (map fst es)) c @ es"
proof (induction es arbitrary: c)
  case Nil
  then show ?case by (simp add: put_all_def)
next
  case (Cons e es)
  obtain k v where e: "e = (k, v)" by (cases e)
  from Cons.prems e have k: "k \<notin> set (map fst es)" and d: "distinct (map fst es)" by auto
  have "put_all (e # es) c = put_all es (cache_put k v c)"
    by (simp add: put_all_def e)
  also have "\<dots> = filter (\<lambda>(k, v). k \<notin> set (map fst es)) (cache_put k v c) @ es"
    by (rule Cons.IH [OF d])
  also have "filter (\<lambda>(k, v). k \<notin> set (map fst es)) (cache_put k v c)
      = filter (\<lambda>(k', v). k' \<notin> set (map fst (e # es))) c @ [e]"
    using k by (auto simp: cache_put_def e intro: filter_cong)
  finally show ?case by simp
qed

lemma put_all_twice:
  assumes "distinct (map fst es)"
  shows "put_all es (put_all es c) = put_all es c"
proof -
  have "filter (\<lambda>(k, v). k \<notin> set (map fst es)) es = []"
    by (force simp: filter_empty_conv)
  then show ?thesis
    by (simp add: put_all_eq [OF assms])
qed

lemma cache_match_put_all:
  "distinct (map fst es) \<Longrightarrow> u \<in> set (map fst es) \<Longrightarrow>
     cache_match u (put_all es c) = map_of es u"
proof -
  assume d: "distinct (map fst es)" and u: "u \<in> set (map fst es)"
  have "map_of (filter (\<lambda>(k, v). k \<notin> set (map fst es)) c) u = None"
    using u by (force simp: map_of_eq_None_iff)
  then show ?thesis
    by (simp add: cache_match_def put_all_eq [OF d] map_add_def)
qed

lemma cache_match_put_all_other:
  "distinct (map fst es) \<Longrightarrow> u \<notin> set (map fst es) \<Longrightarrow>
     cache_match u (put_all es c) = cache_match u c"
proof -
  assume d: "distinct (map fst es)" and u: "u \<notin> set (map fst es)"
  from u have "map_of es u = None"
    by (simp add: map_of_eq_None_iff)
  moreover have "map_of (filter (\<lambda>(k, v). k \<notin> set (map fst es)) c) u = map_of c u"
    by (rule map_of_filter_out [OF u])
  ultimately show ?thesis
    by (simp add: cache_match_def put_all_eq [OF d] map_add_def split: option.splits)
qed

lemma cache_match_put_other: "k \<noteq> u \<Longrightarrow> cache_match u (cache_put k r c) = cache_match u c"
  by (simp add: cache_match_def map_of_cache_put)

lemma entries_for_single:
  "distinct (map fst es) \<Longrightarrow> map_of es u = Some r \<Longrightarrow> entries_for u es = [(u, r)]"
proof (induction es)
  case Nil
  then show ?case by simp
next
  case (Cons e es)
  obtain k v where e: "e = (k, v)" by (cases e)
  show ?case
  proof (cases "k = u")
    case True
    with Cons.prems e have "u \<notin> fst ` set es" and "v = r" by auto
    then have "filter (\<lambda>(k, v). k = u) es = []"
      by (force simp: filter_empty_conv)
    then show ?thesis
      by (simp add: entries_for_def e True \<open>v = r\<close>)
  next
    case False
    with Cons e show ?thesis
      by (simp add: entries_for_def)
  qed
qed

lemma entries_for_put_all:
  assumes "distinct (map fst es)" and "map_of es u = Some r"
  shows "entries_for u (put_all es c) = [(u, r)]"
proof -
  have "u \<in> set (map fst es)"
    using assms(2) by (metis map_of_eq_None_iff option.distinct(1) set_map)
  then have "filter (\<lambda>(k, v). k = u) (filter (\<lambda>(k, v). k \<notin> set (map fst es)) c) = []"
    by (auto simp: filter_empty_conv)
  then show ?thesis
    using entries_for_single [OF assms]
    by (simp add: put_all_eq [OF assms(1)] entries_for_def)
qed

lemma distinct_put_all:
  assumes "distinct (map fst es)" and "distinct (map fst c)"
  shows "distinct (map fst (put_all es c))"
proof -
  have "fst ` set (filter (\<lambda>(k, v). k \<notin> set (map fst es)) c) \<inter> fst ` set es = {}"
    by force
  then show ?thesis
    using assms by (simp add: put_all_eq [OF assms(1)] distinct_map_filter)
qed

lemma caches_open_idem: "caches_open n (caches_open n cs) = caches_open n cs"
  by (simp add: caches_open_def caches_keys_def)

lemma caches_open_mem: "n \<in> set (caches_keys (caches_open n cs))"
  by (simp add: caches_open_def caches_keys_def)

lemma caches_open_present: "n \<in> set (caches_keys cs) \<Longrightarrow> caches_open n cs = cs"
  by (simp add: caches_open_def)

lemma distinct_keys_open: "distinct (caches_keys cs) \<Longrightarrow> distinct (caches_keys (caches_open n cs))"
  by (simp add: caches_open_def caches_keys_def)

lemma map_of_caches_open:
  "map_of (caches_open n cs) m =
     (if m = n then Some (case map_of cs n of None \<Rightarrow> [] | Some c \<Rightarrow> c) else map_of cs m)"
proof (cases "map_of cs n")
  case None
  then have "n \<notin> set (caches_keys cs)"
    by (simp add: caches_keys_def map_of_eq_None_iff)
  then show ?thesis
    using None by (simp add: caches_open_def map_add_def split: option.splits)
next
  case (Some c)
  then have "n \<in> set (caches_keys cs)"
    unfolding caches_keys_def by (metis map_of_eq_None_iff option.distinct(1) set_map)
  then show ?thesis
    using Some by (simp add: caches_open_def)
qed

lemma caches_match_open: "caches_match u (caches_open n cs) = caches_match u cs"
  by (induction cs) (auto simp: caches_open_def caches_keys_def cache_match_def split: option.splits)

lemma map_of_update_cache:
  "map_of (update_cache n f cs) m = (if m = n then map_option f (map_of cs n) else map_of cs m)"
  by (induction cs) auto

lemma keys_update_cache: "caches_keys (update_cache n f cs) = caches_keys cs"
  by (induction cs) (auto simp: caches_keys_def)

lemma update_cache_twice: "update_cache n f (update_cache n g cs) = update_cache n (f \<circ> g) cs"
  by (induction cs) auto

lemma update_cache_cong:
  "(\<And>c. map_of cs n = Some c \<Longrightarrow> f c = g c) \<Longrightarrow> update_cache n f cs = update_cache n g cs"
  by (induction cs) auto

lemma generation_open:
  "generation n (caches_open n cs) = Some (case generation n cs of None \<Rightarrow> [] | Some c \<Rightarrow> c)"
  by (simp add: generation_def map_of_caches_open)

lemma stored_open: "stored n u (caches_open m cs) = stored n u cs"
  by (simp add: stored_def generation_def map_of_caches_open cache_match_def split: option.splits)

lemma stored_put:
  "stored n k (update_cache m (cache_put u r) (caches_open m cs))
     = (if n = m \<and> k = u then Some r else stored n k cs)"
  by (simp add: stored_def generation_def map_of_update_cache map_of_caches_open
      cache_match_def map_of_cache_put split: option.splits)

lemma map_of_filter_name: "map_of (filter (\<lambda>(n, c). n = N) cs) N = map_of cs N"
  by (induction cs) auto

lemma filter_eq_single: "distinct xs \<Longrightarrow> x \<in> set xs \<Longrightarrow> filter (\<lambda>y. y = x) xs = [x]"
  by (induction xs) (auto simp: filter_empty_conv)

lemma caches_match_first:
  "map_of cs n = Some c \<Longrightarrow> cache_match u c = Some r \<Longrightarrow>
     caches_match u (filter (\<lambda>(m, c). m = n) cs) = Some r"
  by (induction cs) (auto split: option.splits if_splits)

lemma caches_match_some:
  "map_of cs n = Some c \<Longrightarrow> cache_match u c = Some r \<Longrightarrow> \<exists>r'. caches_match u cs = Some r'"
  by (induction cs) (auto split: option.splits if_splits)

lemma caches_match_after_put:
  "caches_match u cs = None \<Longrightarrow> n \<in> set (caches_keys cs) \<Longrightarrow>
     caches_match u (update_cache n (cache_put u r) cs) = Some r"
proof (induction cs)
  case Nil
  then show ?case by (simp add: caches_keys_def)
next
  case (Cons a cs)
  obtain m c where a: "a = (m, c)" by (cases a)
  from Cons.prems(1) a have c: "map_of c u = None" and rest: "caches_match u cs = None"
    by (auto simp: cache_match_def split: option.splits)
  show ?case
  proof (cases "m = n")
    case True
    then show ?thesis
      by (simp add: a cache_match_def map_of_cache_put)
  next
    case False
    with Cons.prems(2) a have "n \<in> set (caches_keys cs)"
      by (simp add: caches_keys_def)
    from Cons.IH [OF rest this] False c show ?thesis
      by (simp add: a cache_match_def)
  qed
qed

lemma caches_match_update_cache:
  "(\<And>c. cache_match u (f c) = cache_match u c) \<Longrightarrow>
     caches_match u (update_cache n f cs) = caches_match u cs"
  by (induction cs) (auto split: option.splits)

lemma caches_match_filter:
  "caches_match u cs = None \<Longrightarrow> caches_match u (filter P cs) = None"
  by (induction cs) (auto split: option.splits)

section \<open>Properties of the listeners\<close>

lemma distinct_urlsToCache: "distinct urlsToCache"
  by (simp add: urlsToCache_def)

lemma install_success:
  "fetch_all net urlsToCache = Some es \<Longrightarrow>
     install net cs = (Installed, update_cache CACHE_NAME (put_all es) (caches_open CACHE_NAME cs))"
  by (simp add: install_def cache_addAll_def distinct_urlsToCache)

lemma install_failure:
  "fetch_all net urlsToCache = None \<Longrightarrow>
     install net cs = (InstallFailed TypeError, caches_open CACHE_NAME cs)"
  by (simp add: install_def cache_addAll_def)

lemma install_Installed:
  "fst (install net cs) = Installed \<Longrightarrow> \<exists>es. fetch_all net urlsToCache = Some es"
  by (cases "fetch_all net urlsToCache") (simp_all add: install_failure)

lemma installed_accepts:
  assumes "fst (install net cs) = Installed" and "u \<in> set urlsToCache"
  shows "\<exists>r. net (manifest_request u) = Some r \<and> addAll_accepts r"
  using install_Installed [OF assms(1)] assms(2) fetch_all_Some_iff [of net urlsToCache]
  by blast

lemma keys_after_install: "caches_keys (snd (install net cs)) = caches_keys (caches_open CACHE_NAME cs)"
  by (cases "fetch_all net urlsToCache")
     (simp_all add: install_success install_failure keys_update_cache)

lemma generation_after_install:
  assumes "fetch_all net urlsToCache = Some es"
  shows "generation CACHE_NAME (snd (install net cs))
           = Some (put_all es (case generation CACHE_NAME cs of None \<Rightarrow> [] | Some c \<Rightarrow> c))"
  by (simp add: install_success [OF assms] generation_def map_of_update_cache map_of_caches_open)

lemma generation_other_after_install:
  "n \<noteq> CACHE_NAME \<Longrightarrow> generation n (snd (install net cs)) = generation n cs"
  by (cases "fetch_all net urlsToCache")
     (simp_all add: install_success install_failure generation_def map_of_update_cache
        map_of_caches_open)

lemma stored_after_install:
  assumes "fst (install net cs) = Installed" and "u \<in> set urlsToCache"
  shows "stored CACHE_NAME u (snd (install net cs)) = net (manifest_request u)"
proof -
  from assms(1) obtain es where es: "fetch_all net urlsToCache = Some es"
    using install_Installed by blast
  have keys: "map fst es = urlsToCache"
    by (rule fetch_all_keys [OF es])
  have "cache_match u (put_all es c) = map_of es u" for c
    by (rule cache_match_put_all) (simp_all add: keys distinct_urlsToCache assms(2))
  then show ?thesis
    by (simp add: stored_def generation_after_install [OF es] fetch_all_map_of [OF es assms(2)])
qed

lemma stored_failed_install:
  "fetch_all net urlsToCache = None \<Longrightarrow> stored n u (snd (install net cs)) = stored n u cs"
  by (simp add: install_failure stored_open)

lemma stored_other_after_install:
  "n \<noteq> CACHE_NAME \<or> u \<notin> set urlsToCache \<Longrightarrow>
     stored n u (snd (install net cs)) = stored n u cs"
proof (cases "fetch_all net urlsToCache")
  case None
  then show ?thesis by (rule stored_failed_install)
next
  case (Some es)
  assume nu: "n \<noteq> CACHE_NAME \<or> u \<notin> set urlsToCache"
  have keys: "map fst es = urlsToCache"
    by (rule fetch_all_keys [OF Some])
  show ?thesis
  proof (cases "n = CACHE_NAME")
    case False
    then show ?thesis
      by (simp add: stored_def generation_other_after_install)
  next
    case True
    with nu have u: "u \<notin> set (map fst es)"
      by (simp add: keys)
    have d: "distinct (map fst es)"
      by (simp add: keys distinct_urlsToCache)
    have "cache_match u (put_all es c) = cache_match u c" for c
      by (rule cache_match_put_all_other [OF d u])
    then show ?thesis
      by (simp add: True stored_def generation_after_install [OF Some] cache_match_def
          split: option.splits)
  qed
qed

lemma caches_match_failed_install:
  "fetch_all net urlsToCache = None \<Longrightarrow> caches_match k (snd (install net cs)) = caches_match k cs"
  by (simp add: install_failure caches_match_open)

lemma caches_match_install:
  assumes "u \<notin> set urlsToCache"
  shows "caches_match u (snd (install net cs)) = caches_match u cs"
proof (cases "fetch_all net urlsToCache")
  case None
  then show ?thesis by (rule caches_match_failed_install)
next
  case (Some es)
  have keys: "map fst es = urlsToCache"
    by (rule fetch_all_keys [OF Some])
  have "cache_match u (put_all es c) = cache_match u c" for c
    by (rule cache_match_put_all_other) (simp_all add: keys distinct_urlsToCache assms)
  then show ?thesis
    by (simp add: install_success [OF Some] caches_match_update_cache caches_match_open)
qed

lemma fold_delete:
  "fold (\<lambda>cacheName s. if cacheName \<noteq> N then caches_delete cacheName s else s) ns cs
     = filter (\<lambda>(n, c). n = N \<or> n \<notin> set ns) cs"
proof (induction ns arbitrary: cs)
  case Nil
  then show ?case by simp
next
  case (Cons a ns)
  show ?case
    by (auto simp: Cons.IH caches_delete_def intro: filter_cong)
qed

lemma activate_eq: "activate cs = filter (\<lambda>(n, c). n = CACHE_NAME) cs"
  unfolding activate_def fold_delete caches_keys_def
  by (rule filter_cong) force+

lemma keys_activate: "caches_keys (activate cs) = filter (\<lambda>n. n = CACHE_NAME) (caches_keys cs)"
  by (simp add: activate_eq caches_keys_def filter_map comp_def case_prod_unfold)

lemma hit: "caches_match (url req) cs = Some r \<Longrightarrow>
  fetch_listener net put_ok req cs = \<lparr>result = Resolved r, storage = cs, fetched = []\<rparr>"
  by (simp add: fetch_listener_def)

lemma miss_failed:
  "caches_match (url req) cs = None \<Longrightarrow> net req = None \<Longrightarrow>
     fetch_listener net put_ok req cs =
       \<lparr>result = (if mode req = ModeNavigate then of_match (caches_match ''/index.html'' cs)
                  else ResolvedUndefined),
        storage = cs, fetched = [url req]\<rparr>"
  by (simp add: fetch_listener_def)

lemma miss_unusable:
  "caches_match (url req) cs = None \<Longrightarrow> net req = Some r \<Longrightarrow>
   \<not> (status r = 200 \<and> rtype r = Basic) \<Longrightarrow>
     fetch_listener net put_ok req cs = \<lparr>result = Resolved r, storage = cs, fetched = [url req]\<rparr>"
  by (auto simp: fetch_listener_def)

lemma miss_usable:
  "caches_match (url req) cs = None \<Longrightarrow> net req = Some r \<Longrightarrow> status r = 200 \<Longrightarrow>
   rtype r = Basic \<Longrightarrow>
     fetch_listener net put_ok req cs =
       \<lparr>result = Resolved r,
        storage = (if put_ok then update_cache CACHE_NAME (cache_put (url req) r)
                                  (caches_open CACHE_NAME cs)
                   else caches_open CACHE_NAME cs),
        fetched = [url req]\<rparr>"
  by (simp add: fetch_listener_def)

lemma miss_fetched:
  "caches_match (url req) cs = None \<Longrightarrow> fetched (fetch_listener net put_ok req cs) = [url req]"
  by (simp add: fetch_listener_def Let_def split: option.splits)

lemma second_hit:
  assumes "caches_match (url req) cs = None" and "url req' = url req"
    and "net req = Some r" and "status r = 200" and "rtype r = Basic"
  shows "fetch_listener net' put_ok' req' (storage (fetch_listener net True req cs))
      = \<lparr>result = Resolved r, storage = storage (fetch_listener net True req cs), fetched = []\<rparr>"
proof -
  have st: "storage (fetch_listener net True req cs)
      = update_cache CACHE_NAME (cache_put (url req) r) (caches_open CACHE_NAME cs)"
    using assms by (simp add: miss_usable)
  have "caches_match (url req) (caches_open CACHE_NAME cs) = None"
    by (simp add: caches_match_open assms(1))
  then have "caches_match (url req') (storage (fetch_listener net True req cs)) = Some r"
    unfolding st assms(2) by (rule caches_match_after_put) (rule caches_open_mem)
  then show ?thesis
    by (rule hit)
qed

lemma caches_match_fetch_other:
  "url req \<noteq> u \<Longrightarrow> caches_match u (storage (fetch_listener net put_ok req cs)) = caches_match u cs"
  by (simp add: fetch_listener_def Let_def caches_match_update_cache cache_match_put_other
      caches_match_open split: option.splits)

lemma step_keeps_miss:
  "u \<notin> set urlsToCache \<Longrightarrow> u \<notin> set (requested ev) \<Longrightarrow> caches_match u cs = None \<Longrightarrow>
     caches_match u (step ev cs) = None"
  by (cases ev)
     (simp_all add: caches_match_install activate_eq caches_match_filter caches_match_fetch_other)

lemma fold_step_keeps_miss:
  "u \<notin> set urlsToCache \<Longrightarrow> u \<notin> set (concat (map requested evs)) \<Longrightarrow>
   caches_match u cs = None \<Longrightarrow> caches_match u (fold step evs cs) = None"
  by (induction evs arbitrary: cs) (simp_all add: step_keeps_miss)

lemma run_misses:
  "u \<notin> set urlsToCache \<Longrightarrow> u \<notin> set (concat (map requested evs)) \<Longrightarrow>
     caches_match u (run evs) = None"
  unfolding run_def by (rule fold_step_keeps_miss) simp_all

subsection \<open>The example environments\<close>

lemma install_site_network: "fst (install site_network cs) = Installed"
proof -
  have "\<exists>es. fetch_all site_network urlsToCache = Some es"
    unfolding fetch_all_Some_iff by (simp add: site_network_def addAll_accepts_def)
  then show ?thesis
    by (auto simp: install_success)
qed

lemma install_cdn:
  "stored CACHE_NAME ''https://cdn.tailwindcss.com'' (snd (install site_network []))
     = Some \<lparr>status = 200, rtype = Cors, body = ''https://cdn.tailwindcss.com''\<rparr>"
proof -
  have "''https://cdn.tailwindcss.com'' \<in> set urlsToCache"
    by (simp add: urlsToCache_def)
  from stored_after_install [OF install_site_network this] show ?thesis
    by (simp add: site_network_def manifest_request_def)
qed

lemma photo_not_in_manifest: "photo_url \<notin> set urlsToCache"
  by (simp add: photo_url_def urlsToCache_def)

lemma photo_fetch: "site_network photo_request = Some photo_response"
  by (simp add: site_network_def photo_request_def photo_response_def photo_url_def)

section \<open>The claims\<close>

subsection \<open>Cache hits after install\<close>

text \<open>
  Claim C1. After an install that succeeded, the interception of a request for a URL of
  the manifest is a cache hit: the listener answers with a stored response of that URL,
  fetches nothing from the network (whatever the network is by then) and leaves the
  storage as it is. The current generation holds the response that the install fetched
  for that URL, and once the worker is activated that response is the one returned.
\<close>

theorem manifest_hit_after_install:
  assumes "fst (install net cs) = Installed" and "url req \<in> set urlsToCache"
  shows "(\<exists>r. caches_match (url req) (snd (install net cs)) = Some r \<and>
            fetch_listener net' put_ok req (snd (install net cs))
              = \<lparr>result = Resolved r, storage = snd (install net cs), fetched = []\<rparr>) \<and>
         (\<exists>r. net (manifest_request (url req)) = Some r \<and>
            stored CACHE_NAME (url req) (snd (install net cs)) = Some r \<and>
            fetch_listener net' put_ok req (activate (snd (install net cs)))
              = \<lparr>result = Resolved r, storage = activate (snd (install net cs)), fetched = []\<rparr>)"
proof -
  let ?cs = "snd (install net cs)"
  from installed_accepts [OF assms] obtain r where r: "net (manifest_request (url req)) = Some r"
    by blast
  have st: "stored CACHE_NAME (url req) ?cs = Some r"
    by (simp add: stored_after_install [OF assms] r)
  then obtain c where c: "map_of ?cs CACHE_NAME = Some c" and m: "cache_match (url req) c = Some r"
    by (auto simp: stored_def generation_def split: option.splits)
  from caches_match_some [OF c m] obtain r' where r': "caches_match (url req) ?cs = Some r'"
    by blast
  have "caches_match (url req) (activate ?cs) = Some r"
    unfolding activate_eq by (rule caches_match_first [OF c m])
  then show ?thesis
    using r st r' by (simp add: hit)
qed

theorem manifest_hit_after_install_witness:
  "fst (install site_network []) = Installed \<and>
   url \<lparr>url = ''/logo.png'', mode = ModeNoCors\<rparr> \<in> set urlsToCache \<and>
   fetched (fetch_listener offline True \<lparr>url = ''/logo.png'', mode = ModeNoCors\<rparr>
      (snd (install site_network []))) = [] \<and>
   result (fetch_listener offline True \<lparr>url = ''/logo.png'', mode = ModeNoCors\<rparr>
      (snd (install site_network [])))
     = Resolved \<lparr>status = 200, rtype = Basic, body = ''/logo.png''\<rparr>"
proof -
  have i: "fst (install site_network []) = Installed"
    by (rule install_site_network)
  have u: "url \<lparr>url = ''/logo.png'', mode = ModeNoCors\<rparr> \<in> set urlsToCache"
    by (simp add: urlsToCache_def)
  have a: "activate (snd (install site_network [])) = snd (install site_network [])"
    by (simp add: activate_eq install_def caches_open_def caches_keys_def Let_def split: sum.splits)
  show ?thesis
    using i u manifest_hit_after_install [OF i u, of offline True]
    by (auto simp: a site_network_def manifest_request_def)
qed

subsection \<open>A cache miss\<close>

text \<open>
  Claim C2, as stated, fails for a success status other than 200: the guard of the
  listener tests \<open>response.status !== 200\<close>. A basic response with status 204 is
  returned to the caller and not stored.
\<close>

theorem no_content_not_stored_counterexample:
  "caches_match (url \<lparr>url = ''/unknown.js'', mode = ModeNoCors\<rparr>) [] = None \<and>
   no_content_network \<lparr>url = ''/unknown.js'', mode = ModeNoCors\<rparr> = Some no_content \<and>
   200 \<le> status no_content \<and> status no_content \<le> 299 \<and> rtype no_content = Basic \<and>
   fetch_listener no_content_network True \<lparr>url = ''/unknown.js'', mode = ModeNoCors\<rparr> []
     = \<lparr>result = Resolved no_content, storage = [], fetched = [''/unknown.js'']\<rparr> \<and>
   stored CACHE_NAME ''/unknown.js'' [] = None"
  by (simp add: fetch_listener_def no_content_network_def no_content_def stored_def
      generation_def)

text \<open>
  Claim C2, amended. The interception of a request that no cache holds fetches exactly
  once from the network. When the network answers, the listener resolves to that very
  response. A response with status 200 and type basic is stored under the request's URL
  in the generation \<open>CACHE_NAME\<close> (once the write, which the listener does not wait for,
  has completed); any other response leaves the storage as it was. No other entry of any
  generation changes.
\<close>

theorem miss_fetches_and_stores:
  assumes "caches_match (url req) cs = None"
  shows "fetched (fetch_listener net put_ok req cs) = [url req] \<and>
         (\<forall>r. net req = Some r \<longrightarrow>
            result (fetch_listener net put_ok req cs) = Resolved r \<and>
            (status r = 200 \<and> rtype r = Basic \<and> put_ok \<longrightarrow>
               stored CACHE_NAME (url req) (storage (fetch_listener net put_ok req cs)) = Some r) \<and>
            (\<not> (status r = 200 \<and> rtype r = Basic) \<longrightarrow>
               storage (fetch_listener net put_ok req cs) = cs)) \<and>
         (\<forall>n k. (n, k) \<noteq> (CACHE_NAME, url req) \<longrightarrow>
            stored n k (storage (fetch_listener net put_ok req cs)) = stored n k cs)"
proof -
  have one: "fetched (fetch_listener net put_ok req cs) = [url req]"
    by (rule miss_fetched [OF assms])
  have resp: "result (fetch_listener net put_ok req cs) = Resolved r \<and>
      (status r = 200 \<and> rtype r = Basic \<and> put_ok \<longrightarrow>
         stored CACHE_NAME (url req) (storage (fetch_listener net put_ok req cs)) = Some r) \<and>
      (\<not> (status r = 200 \<and> rtype r = Basic) \<longrightarrow> storage (fetch_listener net put_ok req cs) = cs)"
    if r: "net req = Some r" for r
  proof (cases "status r = 200 \<and> rtype r = Basic")
    case True
    then show ?thesis
      using assms r by (simp add: miss_usable stored_put)
  next
    case False
    then show ?thesis
      using assms r by (auto simp: miss_unusable)
  qed
  have frame: "stored n k (storage (fetch_listener net put_ok req cs)) = stored n k cs"
    if nk: "(n, k) \<noteq> (CACHE_NAME, url req)" for n k
  proof (cases "net req")
    case None
    then show ?thesis
      using assms by (simp add: miss_failed)
  next
    case (Some r)
    show ?thesis
    proof (cases "status r = 200 \<and> rtype r = Basic")
      case True
      then show ?thesis
        using nk assms Some by (auto simp: miss_usable stored_put stored_open)
    next
      case False
      then show ?thesis
        using assms Some by (simp add: miss_unusable)
    qed
  qed
  from one resp frame show ?thesis
    by blast
qed

theorem miss_fetches_and_stores_witness:
  "caches_match (url \<lparr>url = ''/unknown.js'', mode = ModeNoCors\<rparr>) [(CACHE_NAME, [])] = None \<and>
   site_network \<lparr>url = ''/unknown.js'', mode = ModeNoCors\<rparr>
     = Some \<lparr>status = 200, rtype = Basic, body = ''/unknown.js''\<rparr> \<and>
   fetched (fetch_listener site_network True \<lparr>url = ''/unknown.js'', mode = ModeNoCors\<rparr>
      [(CACHE_NAME, [])]) = [''/unknown.js''] \<and>
   result (fetch_listener site_network True \<lparr>url = ''/unknown.js'', mode = ModeNoCors\<rparr>
      [(CACHE_NAME, [])]) = Resolved \<lparr>status = 200, rtype = Basic, body = ''/unknown.js''\<rparr> \<and>
   stored CACHE_NAME ''/unknown.js''
     (storage (fetch_listener site_network True \<lparr>url = ''/unknown.js'', mode = ModeNoCors\<rparr>
        [(CACHE_NAME, [])])) = Some \<lparr>status = 200, rtype = Basic, body = ''/unknown.js''\<rparr>"
proof -
  have m: "caches_match (url \<lparr>url = ''/unknown.js'', mode = ModeNoCors\<rparr>) [(CACHE_NAME, [])] = None"
    by (simp add: cache_match_def)
  have n: "site_network \<lparr>url = ''/unknown.js'', mode = ModeNoCors\<rparr>
     = Some \<lparr>status = 200, rtype = Basic, body = ''/unknown.js''\<rparr>"
    by (simp add: site_network_def)
  show ?thesis
    using m n miss_fetches_and_stores [OF m, of site_network True] by simp
qed

subsection \<open>A cache miss without network\<close>

text \<open>
  Claim C3. When the network fetch of a cache miss fails, nothing is cached and the
  storage is as before. For a navigation request the listener resolves to the stored
  home document \<open>/index.html\<close>, which the caller receives. For any other request the
  listener's \<open>catch\<close> resolves to \<open>undefined\<close>: no response is made up, and the caller
  gets the network error it would get from a rejected promise.
\<close>

theorem network_failure_on_miss:
  assumes "caches_match (url req) cs = None" and "net req = None"
  shows "storage (fetch_listener net put_ok req cs) = cs \<and>
         fetched (fetch_listener net put_ok req cs) = [url req] \<and>
         (mode req = ModeNavigate \<longrightarrow>
            (\<forall>doc. caches_match ''/index.html'' cs = Some doc \<longrightarrow>
               result (fetch_listener net put_ok req cs) = Resolved doc \<and>
               respondWith (result (fetch_listener net put_ok req cs)) = Delivered doc)) \<and>
         (mode req \<noteq> ModeNavigate \<longrightarrow>
            result (fetch_listener net put_ok req cs) = ResolvedUndefined \<and>
            respondWith (result (fetch_listener net put_ok req cs)) = NetworkError \<and>
            respondWith (result (fetch_listener net put_ok req cs)) = respondWith Rejected)"
  using assms by (simp add: miss_failed of_match_def)

theorem network_failure_on_miss_witness:
  "caches_match (url \<lparr>url = ''/unknown.js'', mode = ModeNoCors\<rparr>)
     [(CACHE_NAME, [(''/index.html'', \<lparr>status = 200, rtype = Basic, body = ''home''\<rparr>)])] = None \<and>
   caches_match (url \<lparr>url = ''/about.html'', mode = ModeNavigate\<rparr>)
     [(CACHE_NAME, [(''/index.html'', \<lparr>status = 200, rtype = Basic, body = ''home''\<rparr>)])] = None \<and>
   offline \<lparr>url = ''/unknown.js'', mode = ModeNoCors\<rparr> = None \<and>
   offline \<lparr>url = ''/about.html'', mode = ModeNavigate\<rparr> = None \<and>
   respondWith (result (fetch_listener offline True \<lparr>url = ''/unknown.js'', mode = ModeNoCors\<rparr>
     [(CACHE_NAME, [(''/index.html'', \<lparr>status = 200, rtype = Basic, body = ''home''\<rparr>)])]))
     = NetworkError \<and>
   respondWith (result (fetch_listener offline True \<lparr>url = ''/about.html'', mode = ModeNavigate\<rparr>
     [(CACHE_NAME, [(''/index.html'', \<lparr>status = 200, rtype = Basic, body = ''home''\<rparr>)])]))
     = Delivered \<lparr>status = 200, rtype = Basic, body = ''home''\<rparr>"
proof -
  let ?cs = "[(CACHE_NAME, [(''/index.html'', \<lparr>status = 200, rtype = Basic, body = ''home''\<rparr>)])]"
  let ?sub = "\<lparr>url = ''/unknown.js'', mode = ModeNoCors\<rparr>"
  let ?nav = "\<lparr>url = ''/about.html'', mode = ModeNavigate\<rparr>"
  have m1: "caches_match (url ?sub) ?cs = None" by (simp add: cache_match_def)
  have m2: "caches_match (url ?nav) ?cs = None" by (simp add: cache_match_def)
  have o1: "offline ?sub = None" by (simp add: offline_def)
  have o2: "offline ?nav = None" by (simp add: offline_def)
  have h: "caches_match ''/index.html'' ?cs = Some \<lparr>status = 200, rtype = Basic, body = ''home''\<rparr>"
    by (simp add: cache_match_def)
  show ?thesis
    using m1 m2 o1 o2 h network_failure_on_miss [where net = offline and put_ok = True, OF m1 o1]
      network_failure_on_miss [where net = offline and put_ok = True, OF m2 o2]
    by simp
qed

subsection \<open>A failed install\<close>

text \<open>
  Claim C4. If the fetch of one resource of the manifest fails during install (the fetch
  is rejected, or \<open>addAll\<close> refuses its response), the install step fails as a whole
  and stores nothing: the generation \<open>CACHE_NAME\<close> has the entries it had before (none
  when \<open>caches.open\<close> has just created it), every generation holds what it held, and
  every lookup answers as before. No subset of the manifest is committed.
\<close>

theorem failed_install_stores_nothing:
  assumes "u \<in> set urlsToCache"
    and "net (manifest_request u) = None \<or>
         (\<exists>r. net (manifest_request u) = Some r \<and> \<not> addAll_accepts r)"
  shows "fst (install net cs) = InstallFailed TypeError \<and>
         generation CACHE_NAME (snd (install net cs))
           = Some (case generation CACHE_NAME cs of None \<Rightarrow> [] | Some c \<Rightarrow> c) \<and>
         (\<forall>n k. stored n k (snd (install net cs)) = stored n k cs) \<and>
         (\<forall>k. caches_match k (snd (install net cs)) = caches_match k cs)"
proof -
  have "\<not> (\<exists>es. fetch_all net urlsToCache = Some es)"
    unfolding fetch_all_Some_iff using assms by fastforce
  then have none: "fetch_all net urlsToCache = None"
    by simp
  show ?thesis
    using stored_failed_install [OF none] caches_match_failed_install [OF none]
    by (simp add: install_failure [OF none] generation_open)
qed

theorem failed_install_stores_nothing_witness:
  "''/logo.png'' \<in> set urlsToCache \<and>
   without_logo (manifest_request ''/logo.png'') = None \<and>
   without_logo (manifest_request ''/index.html'')
     = Some \<lparr>status = 200, rtype = Basic, body = ''/index.html''\<rparr> \<and>
   fst (install without_logo []) = InstallFailed TypeError \<and>
   generation CACHE_NAME (snd (install without_logo [])) = Some [] \<and>
   stored CACHE_NAME ''/index.html'' (snd (install without_logo [])) = None"
proof -
  have u: "''/logo.png'' \<in> set urlsToCache"
    by (simp add: urlsToCache_def)
  have n: "without_logo (manifest_request ''/logo.png'') = None"
    by (simp add: without_logo_def manifest_request_def)
  have n': "without_logo (manifest_request ''/logo.png'') = None \<or>
         (\<exists>r. without_logo (manifest_request ''/logo.png'') = Some r \<and> \<not> addAll_accepts r)"
    using n by simp
  have i: "without_logo (manifest_request ''/index.html'')
     = Some \<lparr>status = 200, rtype = Basic, body = ''/index.html''\<rparr>"
    by (simp add: without_logo_def manifest_request_def site_network_def)
  show ?thesis
    using u n i failed_install_stores_nothing [where net = without_logo and cs = "[]", OF u n']
    by (simp add: generation_def stored_def cache_match_def)
qed

subsection \<open>Activation keeps one generation\<close>

text \<open>
  Claim C5. The activate step deletes every generation whose name is not \<open>CACHE_NAME\<close>:
  the names left are those of before that equal \<open>CACHE_NAME\<close>. After an install that
  succeeded, on a storage whose generations have different names, the names enumerated
  after activation are exactly the one name \<open>CACHE_NAME\<close>.
\<close>

theorem activate_leaves_one_generation:
  assumes "distinct (caches_keys cs)" and "fst (install net cs) = Installed"
  shows "caches_keys (activate (snd (install net cs))) = [CACHE_NAME] \<and>
         caches_keys (activate cs) = filter (\<lambda>n. n = CACHE_NAME) (caches_keys cs)"
proof -
  have "distinct (caches_keys (snd (install net cs)))"
    by (simp add: keys_after_install distinct_keys_open assms(1))
  moreover have "CACHE_NAME \<in> set (caches_keys (snd (install net cs)))"
    by (simp add: keys_after_install caches_open_mem)
  ultimately show ?thesis
    by (simp add: keys_activate filter_eq_single)
qed

theorem activate_leaves_one_generation_witness:
  "distinct (caches_keys [(''chakabnb-v0'', [])]) \<and>
   fst (install site_network [(''chakabnb-v0'', [])]) = Installed \<and>
   caches_keys (snd (install site_network [(''chakabnb-v0'', [])])) = [''chakabnb-v0'', CACHE_NAME] \<and>
   caches_keys (activate (snd (install site_network [(''chakabnb-v0'', [])]))) = [CACHE_NAME]"
proof -
  have d: "distinct (caches_keys [(''chakabnb-v0'', [])])"
    by (simp add: caches_keys_def)
  have i: "fst (install site_network [(''chakabnb-v0'', [])]) = Installed"
    by (rule install_site_network)
  have k: "caches_keys (snd (install site_network [(''chakabnb-v0'', [])])) = [''chakabnb-v0'', CACHE_NAME]"
    unfolding keys_after_install by (simp add: caches_open_def caches_keys_def CACHE_NAME_def)
  show ?thesis
    using d i k activate_leaves_one_generation [OF d i] by simp
qed

subsection \<open>What gets stored\<close>

text \<open>
  Claim C6, as stated, fails at install time: \<open>cache.addAll\<close> has no guard on the type of
  the response. The manifest lists resources of other origins; with a network that
  answers them with CORS responses the install succeeds and the generation holds, for
  \<open>https://cdn.tailwindcss.com\<close>, an entry that was not there before and whose response is
  not of type basic.
\<close>

theorem install_stores_cors_counterexample:
  "fst (install site_network []) = Installed \<and>
   stored CACHE_NAME ''https://cdn.tailwindcss.com'' [] = None \<and>
   stored CACHE_NAME ''https://cdn.tailwindcss.com'' (snd (install site_network []))
     = Some \<lparr>status = 200, rtype = Cors, body = ''https://cdn.tailwindcss.com''\<rparr> \<and>
   rtype \<lparr>status = 200, rtype = Cors, body = ''https://cdn.tailwindcss.com''\<rparr> \<noteq> Basic"
  using install_site_network [of "[]"] install_cdn
  by (simp add: stored_def generation_def)

text \<open>
  Claim C6, amended. An entry that the fetch listener writes is stored in the generation
  \<open>CACHE_NAME\<close> under the request's URL, and only for a network response with status 200
  and type basic. An entry that the install step writes is stored in that generation
  under a URL of the manifest, and only for a network response with an ok status (200 to
  299, other than 206) that is not of type error, whatever else its type.
\<close>

theorem entries_captured:
  "(stored n u (storage (fetch_listener net put_ok req cs)) = Some r \<and> stored n u cs \<noteq> Some r \<longrightarrow>
      n = CACHE_NAME \<and> u = url req \<and> net req = Some r \<and> status r = 200 \<and> rtype r = Basic) \<and>
   (stored n u (snd (install net cs)) = Some r \<and> stored n u cs \<noteq> Some r \<longrightarrow>
      n = CACHE_NAME \<and> u \<in> set urlsToCache \<and> net (manifest_request u) = Some r \<and>
      200 \<le> status r \<and> status r \<le> 299 \<and> status r \<noteq> 206 \<and> rtype r \<noteq> ErrorType)"
proof -
  have listener: "n = CACHE_NAME \<and> u = url req \<and> net req = Some r \<and> status r = 200 \<and> rtype r = Basic"
    if "stored n u (storage (fetch_listener net put_ok req cs)) = Some r" and "stored n u cs \<noteq> Some r"
    using that
    by (auto simp: fetch_listener_def Let_def stored_put stored_open
        split: option.splits if_splits)
  have inst: "n = CACHE_NAME \<and> u \<in> set urlsToCache \<and> net (manifest_request u) = Some r \<and>
      200 \<le> status r \<and> status r \<le> 299 \<and> status r \<noteq> 206 \<and> rtype r \<noteq> ErrorType"
    if new: "stored n u (snd (install net cs)) = Some r" and old: "stored n u cs \<noteq> Some r"
  proof -
    from new old have nu: "n = CACHE_NAME" "u \<in> set urlsToCache"
      using stored_other_after_install [of n u net cs] by auto
    from new old obtain es where es: "fetch_all net urlsToCache = Some es"
      using stored_failed_install [of net n u cs] by (cases "fetch_all net urlsToCache") auto
    then have i: "fst (install net cs) = Installed"
      by (simp add: install_success)
    from stored_after_install [OF i nu(2)] new nu(1)
    have r: "net (manifest_request u) = Some r" by simp
    with installed_accepts [OF i nu(2)] have "addAll_accepts r" by simp
    with nu r show ?thesis
      by (simp add: addAll_accepts_def)
  qed
  from listener inst show ?thesis
    by blast
qed

theorem entries_captured_witness:
  "stored CACHE_NAME ''/unknown.js''
     (storage (fetch_listener site_network True \<lparr>url = ''/unknown.js'', mode = ModeNoCors\<rparr> []))
     = Some \<lparr>status = 200, rtype = Basic, body = ''/unknown.js''\<rparr> \<and>
   stored CACHE_NAME ''/unknown.js'' [] \<noteq> Some \<lparr>status = 200, rtype = Basic, body = ''/unknown.js''\<rparr> \<and>
   site_network \<lparr>url = ''/unknown.js'', mode = ModeNoCors\<rparr>
     = Some \<lparr>status = 200, rtype = Basic, body = ''/unknown.js''\<rparr> \<and>
   stored CACHE_NAME ''https://cdn.tailwindcss.com'' (snd (install site_network []))
     = Some \<lparr>status = 200, rtype = Cors, body = ''https://cdn.tailwindcss.com''\<rparr> \<and>
   stored CACHE_NAME ''https://cdn.tailwindcss.com'' []
     \<noteq> Some \<lparr>status = 200, rtype = Cors, body = ''https://cdn.tailwindcss.com''\<rparr> \<and>
   ''https://cdn.tailwindcss.com'' \<in> set urlsToCache \<and>
   site_network (manifest_request ''https://cdn.tailwindcss.com'')
     = Some \<lparr>status = 200, rtype = Cors, body = ''https://cdn.tailwindcss.com''\<rparr>"
proof -
  let ?req = "\<lparr>url = ''/unknown.js'', mode = ModeNoCors\<rparr>"
  let ?r = "\<lparr>status = 200, rtype = Basic, body = ''/unknown.js''\<rparr>"
  let ?c = "\<lparr>status = 200, rtype = Cors, body = ''https://cdn.tailwindcss.com''\<rparr>"
  have a: "stored CACHE_NAME ''/unknown.js'' (storage (fetch_listener site_network True ?req [])) = Some ?r"
    by (simp add: fetch_listener_def site_network_def stored_put)
  have b: "stored CACHE_NAME ''/unknown.js'' [] \<noteq> Some ?r"
    by (simp add: stored_def generation_def)
  have c: "stored CACHE_NAME ''https://cdn.tailwindcss.com'' [] \<noteq> Some ?c"
    by (simp add: stored_def generation_def)
  show ?thesis
    using a b c install_cdn
      entries_captured [of CACHE_NAME "''/unknown.js''" site_network True ?req "[]" ?r]
      entries_captured [of CACHE_NAME "''https://cdn.tailwindcss.com''" site_network True ?req "[]" ?c]
    by simp
qed

subsection \<open>A miss followed by a hit\<close>

text \<open>
  Claim C7, as stated, fails for a resource of another origin. The photo is not in the
  manifest and, right after the install, was never fetched. Its first interception
  fetches it once, successfully (status 200), but the response is of type cors, so the
  listener does not store it: the second interception is no cache hit and fetches from
  the network again.
\<close>

theorem cross_origin_refetched_counterexample:
  "url photo_request \<notin> set urlsToCache \<and>
   url photo_request \<notin> set (concat (map requested [InstallEvent site_network])) \<and>
   fetch_listener site_network True photo_request (run [InstallEvent site_network])
     = \<lparr>result = Resolved photo_response, storage = run [InstallEvent site_network],
        fetched = [photo_url]\<rparr> \<and>
   status photo_response = 200 \<and>
   fetch_listener site_network True photo_request
       (storage (fetch_listener site_network True photo_request (run [InstallEvent site_network])))
     = \<lparr>result = Resolved photo_response, storage = run [InstallEvent site_network],
        fetched = [photo_url]\<rparr>"
proof -
  have u: "url photo_request = photo_url"
    by (simp add: photo_request_def)
  have m: "caches_match (url photo_request) (run [InstallEvent site_network]) = None"
    unfolding u by (rule run_misses [OF photo_not_in_manifest]) simp
  have t: "\<not> (status photo_response = 200 \<and> rtype photo_response = Basic)"
    by (simp add: photo_response_def)
  have first: "fetch_listener site_network True photo_request (run [InstallEvent site_network])
     = \<lparr>result = Resolved photo_response, storage = run [InstallEvent site_network],
        fetched = [photo_url]\<rparr>"
    using miss_unusable [where net = site_network, OF m photo_fetch t] by (simp add: u)
  show ?thesis
    using photo_not_in_manifest first by (simp add: u photo_response_def)
qed

text \<open>
  Claim C7, amended. Take a URL that is not in the manifest and that no event so far has
  intercepted, whatever installs, activations and interceptions of other URLs there
  were. Its first interception performs exactly one network fetch; if that fetch gives a
  response with status 200 and type basic, then after the cache write has completed a
  second interception of the same URL is a cache hit: it resolves to that response,
  fetches nothing, whatever the network is by then, and leaves the storage as it is.
\<close>

theorem second_interception_hits:
  assumes "url req \<notin> set urlsToCache"
    and "url req \<notin> set (concat (map requested evs))"
    and "url req' = url req"
  shows "fetched (fetch_listener net put_ok req (run evs)) = [url req] \<and>
         (\<forall>r. net req = Some r \<and> status r = 200 \<and> rtype r = Basic \<longrightarrow>
            fetch_listener net' put_ok' req' (storage (fetch_listener net True req (run evs)))
              = \<lparr>result = Resolved r, storage = storage (fetch_listener net True req (run evs)),
                 fetched = []\<rparr>)"
proof -
  have miss: "caches_match (url req) (run evs) = None"
    by (rule run_misses [OF assms(1,2)])
  have "fetched (fetch_listener net put_ok req (run evs)) = [url req]"
    by (rule miss_fetched [OF miss])
  moreover have "fetch_listener net' put_ok' req' (storage (fetch_listener net True req (run evs)))
      = \<lparr>result = Resolved r, storage = storage (fetch_listener net True req (run evs)),
         fetched = []\<rparr>"
    if "net req = Some r" and "status r = 200" and "rtype r = Basic" for r
    using miss assms(3) that by (rule second_hit)
  ultimately show ?thesis
    by blast
qed

theorem second_interception_hits_witness:
  "url \<lparr>url = ''/unknown.js'', mode = ModeNoCors\<rparr> \<notin> set urlsToCache \<and>
   url \<lparr>url = ''/unknown.js'', mode = ModeNoCors\<rparr>
     \<notin> set (concat (map requested
         [InstallEvent site_network, ActivateEvent,
          FetchEvent site_network True \<lparr>url = ''/logo.png'', mode = ModeNoCors\<rparr>])) \<and>
   site_network \<lparr>url = ''/unknown.js'', mode = ModeNoCors\<rparr>
     = Some \<lparr>status = 200, rtype = Basic, body = ''/unknown.js''\<rparr> \<and>
   fetched (fetch_listener site_network True \<lparr>url = ''/unknown.js'', mode = ModeNoCors\<rparr>
      (run [InstallEvent site_network, ActivateEvent,
            FetchEvent site_network True \<lparr>url = ''/logo.png'', mode = ModeNoCors\<rparr>]))
     = [''/unknown.js''] \<and>
   result (fetch_listener offline False \<lparr>url = ''/unknown.js'', mode = ModeNoCors\<rparr>
       (storage (fetch_listener site_network True \<lparr>url = ''/unknown.js'', mode = ModeNoCors\<rparr>
          (run [InstallEvent site_network, ActivateEvent,
                FetchEvent site_network True \<lparr>url = ''/logo.png'', mode = ModeNoCors\<rparr>]))))
     = Resolved \<lparr>status = 200, rtype = Basic, body = ''/unknown.js''\<rparr> \<and>
   fetched (fetch_listener offline False \<lparr>url = ''/unknown.js'', mode = ModeNoCors\<rparr>
       (storage (fetch_listener site_network True \<lparr>url = ''/unknown.js'', mode = ModeNoCors\<rparr>
          (run [InstallEvent site_network, ActivateEvent,
                FetchEvent site_network True \<lparr>url = ''/logo.png'', mode = ModeNoCors\<rparr>]))))
     = []"
proof -
  let ?req = "\<lparr>url = ''/unknown.js'', mode = ModeNoCors\<rparr>"
  let ?evs = "[InstallEvent site_network, ActivateEvent,
               FetchEvent site_network True \<lparr>url = ''/logo.png'', mode = ModeNoCors\<rparr>]"
  have a: "url ?req \<notin> set urlsToCache"
    by (simp add: urlsToCache_def)
  have b: "url ?req \<notin> set (concat (map requested ?evs))"
    by simp
  have n: "site_network ?req = Some \<lparr>status = 200, rtype = Basic, body = ''/unknown.js''\<rparr>"
    by (simp add: site_network_def)
  show ?thesis
    using a b n second_interception_hits [where net = site_network and net' = offline
        and put_ok = True and put_ok' = False and req' = ?req and evs = ?evs, OF a b refl]
    by simp
qed

subsection \<open>Install twice\<close>

text \<open>
  Claim C8. Install is idempotent: running the install step again on the storage it
  produced gives the same result and the same storage as the single run. After a
  successful run the generation holds, for every URL of the manifest, exactly one entry,
  with the response fetched for it; and it has no two entries of one URL at all if it
  had none before.
\<close>

theorem install_idempotent:
  "install net (snd (install net cs)) = install net cs \<and>
   (fst (install net cs) = Installed \<longrightarrow>
      (\<exists>c. generation CACHE_NAME (snd (install net (snd (install net cs)))) = Some c \<and>
           (\<forall>u \<in> set urlsToCache.
              \<exists>r. net (manifest_request u) = Some r \<and> entries_for u c = [(u, r)]) \<and>
           ((\<forall>c0. generation CACHE_NAME cs = Some c0 \<longrightarrow> distinct (map fst c0)) \<longrightarrow>
              distinct (map fst c))))"
proof (cases "fetch_all net urlsToCache")
  case None
  then show ?thesis
    by (simp add: install_failure caches_open_idem)
next
  case (Some es)
  let ?once = "update_cache CACHE_NAME (put_all es) (caches_open CACHE_NAME cs)"
  let ?c0 = "case generation CACHE_NAME cs of None \<Rightarrow> [] | Some c \<Rightarrow> c"
  have keys: "map fst es = urlsToCache"
    by (rule fetch_all_keys [OF Some])
  have d: "distinct (map fst es)"
    by (simp add: keys distinct_urlsToCache)
  have once: "install net cs = (Installed, ?once)"
    by (rule install_success [OF Some])
  have "caches_open CACHE_NAME ?once = ?once"
    by (rule caches_open_present) (simp add: keys_update_cache caches_open_mem)
  then have "install net ?once = (Installed, update_cache CACHE_NAME (put_all es) ?once)"
    by (simp add: install_success [OF Some])
  also have "update_cache CACHE_NAME (put_all es) ?once = ?once"
    unfolding update_cache_twice
    by (rule update_cache_cong) (simp add: put_all_twice [OF d])
  finally have twice: "install net (snd (install net cs)) = install net cs"
    by (simp add: once)
  have gen: "generation CACHE_NAME (snd (install net cs)) = Some (put_all es ?c0)"
    by (rule generation_after_install [OF Some])
  have each: "\<exists>r. net (manifest_request u) = Some r \<and> entries_for u (put_all es ?c0) = [(u, r)]"
    if u: "u \<in> set urlsToCache" for u
  proof -
    from Some u obtain r where r: "net (manifest_request u) = Some r"
      using fetch_all_Some_iff [of net urlsToCache] by blast
    then have "map_of es u = Some r"
      by (simp add: fetch_all_map_of [OF Some u])
    from entries_for_put_all [OF d this] r show ?thesis
      by simp
  qed
  have dist: "distinct (map fst (put_all es ?c0))"
    if "\<forall>c0. generation CACHE_NAME cs = Some c0 \<longrightarrow> distinct (map fst c0)"
    using that by (intro distinct_put_all [OF d]) (simp split: option.splits)
  from twice gen each dist show ?thesis
    by auto
qed

theorem install_idempotent_witness:
  "fst (install site_network []) = Installed \<and>
   install site_network (snd (install site_network [])) = install site_network [] \<and>
   ''/logo.png'' \<in> set urlsToCache \<and>
   (\<exists>c. generation CACHE_NAME (snd (install site_network (snd (install site_network [])))) = Some c \<and>
        entries_for ''/logo.png'' c
          = [(''/logo.png'', \<lparr>status = 200, rtype = Basic, body = ''/logo.png''\<rparr>)] \<and>
        distinct (map fst c))"
proof -
  have i: "fst (install site_network []) = Installed"
    by (rule install_site_network)
  have u: "''/logo.png'' \<in> set urlsToCache"
    by (simp add: urlsToCache_def)
  have n: "site_network (manifest_request ''/logo.png'')
      = Some \<lparr>status = 200, rtype = Basic, body = ''/logo.png''\<rparr>"
    by (simp add: site_network_def manifest_request_def)
  have g: "generation CACHE_NAME [] = None"
    by (simp add: generation_def)
  from install_idempotent [of site_network "[]"] i
  obtain c where c: "generation CACHE_NAME (snd (install site_network (snd (install site_network []))))
        = Some c"
    and each: "\<forall>u \<in> set urlsToCache.
        \<exists>r. site_network (manifest_request u) = Some r \<and> entries_for u c = [(u, r)]"
    and dist: "(\<forall>c0. generation CACHE_NAME [] = Some c0 \<longrightarrow> distinct (map fst c0)) \<longrightarrow>
        distinct (map fst c)"
    and same: "install site_network (snd (install site_network [])) = install site_network []"
    by blast
  from each u n have "entries_for ''/logo.png'' c
      = [(''/logo.png'', \<lparr>status = 200, rtype = Basic, body = ''/logo.png''\<rparr>)]"
    by fastforce
  moreover from dist g have "distinct (map fst c)"
    by simp
  ultimately show ?thesis
    using i u c same by blast
qed

subsection \<open>A failed cache write\<close>

text \<open>
  Claim C9. On a cache miss whose network fetch gives a storable response (status 200,
  type basic), the listener resolves to the network response and the caller receives it
  whether the cache write completes or fails: result and network fetches are the same in
  both cases, and after a failed write the generation just holds no entry for the URL.
\<close>

theorem response_independent_of_write:
  assumes "caches_match (url req) cs = None" and "net req = Some r"
    and "status r = 200" and "rtype r = Basic"
  shows "result (fetch_listener net put_ok req cs) = Resolved r \<and>
         respondWith (result (fetch_listener net put_ok req cs)) = Delivered r \<and>
         result (fetch_listener net False req cs) = result (fetch_listener net True req cs) \<and>
         fetched (fetch_listener net False req cs) = fetched (fetch_listener net True req cs) \<and>
         stored CACHE_NAME (url req) (storage (fetch_listener net False req cs)) = None"
proof -
  have "stored CACHE_NAME (url req) cs = None"
  proof (cases "map_of cs CACHE_NAME")
    case None
    then show ?thesis by (simp add: stored_def generation_def)
  next
    case (Some c)
    have "cache_match (url req) c = None"
    proof (cases "cache_match (url req) c")
      case None then show ?thesis .
    next
      case (Some r')
      from caches_match_some [OF \<open>map_of cs CACHE_NAME = Some c\<close> Some] assms(1)
      show ?thesis by simp
    qed
    then show ?thesis by (simp add: stored_def generation_def Some)
  qed
  then show ?thesis
    using assms by (simp add: miss_usable stored_open)
qed

theorem response_independent_of_write_witness:
  "caches_match (url \<lparr>url = ''/unknown.js'', mode = ModeNoCors\<rparr>) [] = None \<and>
   site_network \<lparr>url = ''/unknown.js'', mode = ModeNoCors\<rparr>
     = Some \<lparr>status = 200, rtype = Basic, body = ''/unknown.js''\<rparr> \<and>
   respondWith (result (fetch_listener site_network False \<lparr>url = ''/unknown.js'', mode = ModeNoCors\<rparr> []))
     = Delivered \<lparr>status = 200, rtype = Basic, body = ''/unknown.js''\<rparr> \<and>
   storage (fetch_listener site_network False \<lparr>url = ''/unknown.js'', mode = ModeNoCors\<rparr> [])
     = [(CACHE_NAME, [])]"
proof -
  let ?req = "\<lparr>url = ''/unknown.js'', mode = ModeNoCors\<rparr>"
  let ?r = "\<lparr>status = 200, rtype = Basic, body = ''/unknown.js''\<rparr>"
  have m: "caches_match (url ?req) [] = None" by simp
  have n: "site_network ?req = Some ?r" by (simp add: site_network_def)
  have s: "status ?r = 200" by simp
  have t: "rtype ?r = Basic" by simp
  have st: "storage (fetch_listener site_network False ?req []) = [(CACHE_NAME, [])]"
    using m n by (simp add: miss_usable caches_open_def caches_keys_def)
  show ?thesis
    using m n st response_independent_of_write [where net = site_network and put_ok = False, OF m n s t]
    by simp
qed

subsection \<open>Activation keeps the current generation\<close>

text \<open>
  Claim C10. The activate step leaves the generation named \<open>CACHE_NAME\<close> as it is: the
  list of its entries is the same before and after, and so is the response it holds for
  any URL. What it removes from the storage are the generations of another name, and
  nothing else changes.
\<close>

theorem activate_keeps_current_generation:
  "generation CACHE_NAME (activate cs) = generation CACHE_NAME cs \<and>
   stored CACHE_NAME u (activate cs) = stored CACHE_NAME u cs \<and>
   activate cs = filter (\<lambda>(n, c). n = CACHE_NAME) cs"
  by (simp add: stored_def generation_def activate_eq map_of_filter_name)

end
